theory Spec2Isabelle
  imports Main "HOL-Library.Multiset" "HOL-Library.Char_ord" "HOL-Library.List_Lexorder"
begin

section \<open>Byte strings and the library functions the runner calls\<close>

text \<open>
  Go byte slices and strings are modelled as \<open>string\<close> (a list of bytes). The line feed
  is the byte \<open>0x0A\<close>.
\<close>

abbreviation LF :: char where
  "LF \<equiv> CHR 0x0A"

text \<open>
  \<open>bytes.Split(s, []byte("\n"))\<close>: the library loop looks for the next separator, cuts the
  bytes before it off as one element and goes on behind it; what is left when no separator
  remains is the last element. The result is never empty.
\<close>

function Split :: "string \<Rightarrow> string list" where
  "Split s =
     (case dropWhile (\<lambda>c. c \<noteq> LF) s of
        [] \<Rightarrow> [s]
      | _ # rest \<Rightarrow> takeWhile (\<lambda>c. c \<noteq> LF) s # Split rest)"
  by pat_completeness auto
termination
proof (relation "measure length")
  show "wf (measure length)" by simp
next
  fix s :: string and x rest
  assume "dropWhile (\<lambda>c. c \<noteq> LF) s = x # rest"
  then have "Suc (length rest) = length (dropWhile (\<lambda>c. c \<noteq> LF) s)" by simp
  also have "\<dots> \<le> length s" by (rule length_dropWhile_le)
  finally show "(rest, s) \<in> measure length" by simp
qed

declare Split.simps [simp del]

text \<open>\<open>strings.Join(elems, sep)\<close>: the elements with \<open>sep\<close> between neighbours.\<close>

fun Join_strings :: "string list \<Rightarrow> string \<Rightarrow> string" where
  "Join_strings [] sep = []"
| "Join_strings [x] sep = x"
| "Join_strings (x # y # ys) sep = x @ sep @ Join_strings (y # ys) sep"

section \<open>The environment of one run\<close>

text \<open>
  What \<open>cmd.Run\<close> leaves behind for one script: the bytes captured in \<open>outBuf\<close> and
  \<open>errBuf\<close>, and the error it returns (\<open>None\<close> is Go's \<open>nil\<close>; an error is represented by
  its \<open>Error()\<close> text).
\<close>

record proc =
  p_stdout :: string
  p_stderr :: string
  p_err :: "string option"

text \<open>
  The operating system and the Go library, as far as the runner consults them:
  \<open>filepath.Join\<close> of two elements, the error of \<open>os.Create\<close> for a path, the behaviour
  of \<open>/bin/sh name\<close>, \<open>filepath.Glob\<close>, the errors of \<open>os.MkdirAll\<close> and
  \<open>ioutil.WriteFile\<close>, \<open>os.Args\<close>, the two texts that the clock contributes to the
  summary (the RFC 3339 time stamp and the printed elapsed duration), and the largest
  size with which \<open>make(chan int, n)\<close> succeeds here. The run-time refuses a size whose
  buffer is beyond what it can ever allocate (on 64-bit Linux \<open>2^48 - 96\<close> bytes, eight
  per element) as it refuses a negative one, and it gives up on a smaller one that the
  memory at hand cannot hold.
\<close>

record env =
  Join :: "string \<Rightarrow> string \<Rightarrow> string"
  Create_err :: "string \<Rightarrow> string option"
  sh :: "string \<Rightarrow> proc"
  Glob :: "string \<Rightarrow> string + string list"
  MkdirAll_err :: "string \<Rightarrow> string option"
  WriteFile_err :: "string \<Rightarrow> string option"
  os_Args :: "string list"
  now_text :: string
  elapsed_text :: string
  chan_max :: int

text \<open>
  The part of the outside world the runner changes: the files it has written (path to
  content), the directories it has made, and the commands it has run, in order.
\<close>

record world =
  files :: "string \<rightharpoonup> string"
  dirs :: "string set"
  spawned :: "string list list"

section \<open>runTest\<close>

record result =
  name :: string
  summary :: string
  err :: "string option"

text \<open>
  Lines 75 to 80 of \<open>runTest\<close>: split the captured standard output, and when there are at
  least three elements keep the last three and take the first of them.
\<close>

definition summary_body :: "string \<Rightarrow> string" where
  "summary_body out =
     (let lines = Split out in
      if 3 \<le> length lines
      then (let lines' = drop (length lines - 3) lines in lines' ! 0)
      else [])"

definition summary_of :: "string option \<Rightarrow> string \<Rightarrow> string" where
  "summary_of e out =
     (if e \<noteq> None then ''error: '' @ summary_body out else ''ok: '' @ summary_body out)"

text \<open>The log of the first variant: exit header, then the two delimited sections.\<close>

definition log_text :: "proc \<Rightarrow> string" where
  "log_text p =
     (let errStr = (case p_err p of None \<Rightarrow> ''success'' | Some e \<Rightarrow> e) in
      ''*** EXIT: '' @ errStr @ '' ***'' @ [LF, LF]
      @ ''*** STDOUT: ***'' @ [LF, LF]
      @ p_stdout p
      @ [LF, LF] @ ''*** STDERR: ***'' @ [LF, LF]
      @ p_stderr p)"

text \<open>
  \<open>runTest\<close> of the first variant (the one whose \<open>main\<close> writes the summary file). The
  whole call is one step on the world; writes to the open log are taken to succeed, as
  the code does not look at their results.
\<close>

definition runTest :: "env \<Rightarrow> string \<Rightarrow> string \<Rightarrow> world \<Rightarrow> result \<times> world" where
  "runTest ev nm outdir w =
     (let path = Join ev outdir (nm @ ''.log'') in
      case Create_err ev path of
        Some e \<Rightarrow> (\<lparr>name = [], summary = ''create error'', err = Some e\<rparr>, w)
      | None \<Rightarrow>
          (let p = sh ev nm in
           (\<lparr>name = nm, summary = summary_of (p_err p) (p_stdout p), err = p_err p\<rparr>,
            w\<lparr>files := (files w)(path \<mapsto> log_text p),
              spawned := spawned w @ [[''/bin/sh'', nm]]\<rparr>)))"

text \<open>The second variant writes no exit header; everything else is the same text.\<close>

definition log_text_v2 :: "proc \<Rightarrow> string" where
  "log_text_v2 p =
     ([LF, LF] @ ''*** STDOUT: ***'' @ [LF, LF]
      @ p_stdout p
      @ [LF, LF] @ ''*** STDERR: ***'' @ [LF, LF]
      @ p_stderr p)"

definition runTest_v2 :: "env \<Rightarrow> string \<Rightarrow> string \<Rightarrow> world \<Rightarrow> result \<times> world" where
  "runTest_v2 ev nm outdir w =
     (let path = Join ev outdir (nm @ ''.log'') in
      case Create_err ev path of
        Some e \<Rightarrow> (\<lparr>name = [], summary = ''create error'', err = Some e\<rparr>, w)
      | None \<Rightarrow>
          (let p = sh ev nm in
           (\<lparr>name = nm, summary = summary_of (p_err p) (p_stdout p), err = p_err p\<rparr>,
            w\<lparr>files := (files w)(path \<mapsto> log_text_v2 p),
              spawned := spawned w @ [[''/bin/sh'', nm]]\<rparr>)))"

section \<open>main: configuration, dispatch, collection, report\<close>

text \<open>The command line after \<open>flag.Parse\<close>: \<open>--jobs\<close>, \<open>--outdir\<close> and \<open>flag.Args()\<close>.\<close>

record invocation =
  jobs :: int
  outdir :: string
  patterns :: "string list"

text \<open>Lines 107 to 114: the matches of all patterns, appended in order; the first error stops.\<close>

fun glob_all :: "env \<Rightarrow> string list \<Rightarrow> string list \<Rightarrow> string + string list" where
  "glob_all ev [] entries = Inr entries"
| "glob_all ev (f # fs) entries =
     (case Glob ev f of
        Inl e \<Rightarrow> Inl e
      | Inr es \<Rightarrow> glob_all ev fs (entries @ es))"

text \<open>
  One goroutine per entry. It is \<open>Pending\<close> until its send on \<open>throttle\<close> goes through,
  \<open>Holding\<close> while \<open>runTest\<close> has not returned, \<open>Finished r\<close> with the result in hand
  before the send on \<open>results\<close>, \<open>Sent\<close> until the deferred receive from \<open>throttle\<close>,
  and \<open>Done\<close> after it.
\<close>

datatype unit_state = Pending | Holding | Finished result | Sent | Done

text \<open>What the program prints on standard output, with the formatting left out.\<close>

datatype out_event =
    Progress nat nat string string
  | Newline
  | Final nat string

text \<open>
  The state of the concurrent part of \<open>main\<close>: the goroutines, the number of values in the
  \<open>throttle\<close> channel, the content of the \<open>results\<close> channel (first in, first out),
  the results the collection loop has received so far (its counter \<open>i\<close> is their number),
  the \<open>failed\<close> slice, the output so far and the world.
\<close>

record state =
  units :: "unit_state list"
  throttle :: nat
  results :: "result list"
  got :: "result list"
  failed :: "string list"
  tty :: "out_event list"
  wld :: world

definition init :: "string list \<Rightarrow> world \<Rightarrow> state" where
  "init es w =
     \<lparr>units = replicate (length es) Pending, throttle = 0, results = [], got = [],
      failed = [], tty = [], wld = w\<rparr>"

text \<open>
  The scheduler picks which goroutine moves next, or lets the collection loop receive.
\<close>

datatype action = Acquire nat | Exec nat | Send nat | Release nat | Receive

text \<open>
  One step. \<open>J\<close> is the capacity of \<open>throttle\<close>, \<open>length es\<close> that of \<open>results\<close>. A send
  on a channel goes through when the channel holds fewer values than its capacity, a
  receive when it holds a value; otherwise the goroutine stays blocked and the step is
  \<open>None\<close>. (With capacity 0 a send needs a receiver waiting at the same moment; the only
  receives from \<open>throttle\<close> are the deferred ones, behind a send that went through, so
  no send on an unbuffered \<open>throttle\<close> ever goes through, which is what the guard says.)
\<close>

fun step :: "env \<Rightarrow> nat \<Rightarrow> string \<Rightarrow> string list \<Rightarrow> state \<Rightarrow> action \<Rightarrow> state option" where
  "step ev J out es s (Acquire i) =
     (if i < length (units s) \<and> units s ! i = Pending \<and> throttle s < J
      then Some (s\<lparr>units := (units s)[i := Holding], throttle := Suc (throttle s)\<rparr>)
      else None)"
| "step ev J out es s (Exec i) =
     (if i < length (units s) \<and> i < length es \<and> units s ! i = Holding
      then (let (r, w') = runTest ev (es ! i) out (wld s)
            in Some (s\<lparr>units := (units s)[i := Finished r], wld := w'\<rparr>))
      else None)"
| "step ev J out es s (Send i) =
     (if i < length (units s)
      then (case units s ! i of
              Finished r \<Rightarrow>
                (if length (results s) < length es
                 then Some (s\<lparr>units := (units s)[i := Sent], results := results s @ [r]\<rparr>)
                 else None)
            | _ \<Rightarrow> None)
      else None)"
| "step ev J out es s (Release i) =
     (if i < length (units s) \<and> units s ! i = Sent \<and> 0 < throttle s
      then Some (s\<lparr>units := (units s)[i := Done], throttle := throttle s - 1\<rparr>)
      else None)"
| "step ev J out es s Receive =
     (if length (got s) < length es
      then (case results s of
              [] \<Rightarrow> None
            | r # rs \<Rightarrow>
                Some (s\<lparr>results := rs,
                        got := got s @ [r],
                        tty := tty s @ Progress (Suc (length (got s))) (length es) (name r) (summary r)
                                       # (if err r \<noteq> None then [Newline] else []),
                        failed := (if err r \<noteq> None then failed s @ [name r] else failed s)\<rparr>))
      else None)"

fun run_sched :: "env \<Rightarrow> nat \<Rightarrow> string \<Rightarrow> string list \<Rightarrow> state \<Rightarrow> action list \<Rightarrow> state option" where
  "run_sched ev J out es s [] = Some s"
| "run_sched ev J out es s (a # as) =
     (case step ev J out es s a of
        None \<Rightarrow> None
      | Some s' \<Rightarrow> run_sched ev J out es s' as)"

definition all_actions :: "nat \<Rightarrow> action list" where
  "all_actions n = Receive # concat (map (\<lambda>i. [Acquire i, Exec i, Send i, Release i]) [0..<n])"

text \<open>No goroutine can move and the collection loop cannot receive.\<close>

definition stuck :: "env \<Rightarrow> nat \<Rightarrow> string \<Rightarrow> string list \<Rightarrow> state \<Rightarrow> bool" where
  "stuck ev J out es s = list_all (\<lambda>a. step ev J out es s a = None) (all_actions (length es))"

text \<open>The goroutines that have a value in \<open>throttle\<close>: acquired and not yet released.\<close>

fun holds :: "unit_state \<Rightarrow> bool" where
  "holds Pending = False"
| "holds Done = False"
| "holds _ = True"

definition holders :: "state \<Rightarrow> nat" where
  "holders s = length (filter holds (units s))"

text \<open>
  How the process ends: a normal return from \<open>main\<close> (status 0), \<open>log.Fatal\<close> (status 1),
  the failure to make a channel (a run-time panic for a size out of range, a fatal error
  when the memory is not there; status 2 either way), or the run-time's report that all
  goroutines are asleep (status 2).
\<close>

datatype exit = Exit0 | Fatal string | Panic | Deadlock

fun exit_status :: "exit \<Rightarrow> nat" where
  "exit_status Exit0 = 0"
| "exit_status (Fatal _) = 1"
| "exit_status Panic = 2"
| "exit_status Deadlock = 2"

text \<open>\<open>%s\<close> of a slice of strings: the elements between brackets, separated by spaces.\<close>

definition show_args :: "string list \<Rightarrow> string" where
  "show_args xs = ''['' @ Join_strings xs '' '' @ '']''"

definition summary_text :: "env \<Rightarrow> string list \<Rightarrow> string" where
  "summary_text ev fs =
     ''# run '' @ show_args (os_Args ev) @ [LF]
     @ ''# on '' @ now_text ev @ '', elapsed '' @ elapsed_text ev @ '':'' @ [LF]
     @ Join_strings fs [LF]"

text \<open>Lines 142 to 153: sort the failures, write the summary file, print the totals.\<close>

definition finish :: "env \<Rightarrow> string \<Rightarrow> state \<Rightarrow> exit \<times> world \<times> out_event list" where
  "finish ev out s =
     (let failed' = sort (failed s);
          path = Join ev out ''summary.txt''
      in case WriteFile_err ev path of
           Some e \<Rightarrow> (Fatal e, wld s, tty s @ [Newline])
         | None \<Rightarrow>
             (Exit0,
              (wld s)\<lparr>files := (files (wld s))(path \<mapsto> summary_text ev failed')\<rparr>,
              tty s @ [Newline, Final (length failed') (elapsed_text ev)]))"

text \<open>
  \<open>main\<close> of the first variant, for one schedule of the concurrent part. The result is
  \<open>None\<close> when the schedule is not one of a whole run: it asks for a step that cannot be
  taken, or it ends while the collection loop is still waiting and something can move.
  Making \<open>throttle\<close> fails when \<open>--jobs\<close> is negative or beyond the size the
  run-time can give. The size of \<open>results\<close> is never out of range: the slice
  \<open>entries\<close>, which exists, takes twice the bytes the buffer of \<open>results\<close> takes.
\<close>

definition main :: "env \<Rightarrow> invocation \<Rightarrow> world \<Rightarrow> action list \<Rightarrow> (exit \<times> world \<times> out_event list) option" where
  "main ev cl w sched =
     (if outdir cl = [] then Some (Fatal ''must provide --outdir.'', w, [])
      else if patterns cl = [] then Some (Fatal ''usage: provide glob'', w, [])
      else case glob_all ev (patterns cl) [] of
             Inl e \<Rightarrow> Some (Fatal (''glob: '' @ e), w, [])
           | Inr entries \<Rightarrow>
               (case MkdirAll_err ev (outdir cl) of
                  Some e \<Rightarrow> Some (Fatal e, w, [])
                | None \<Rightarrow>
                    (let w1 = w\<lparr>dirs := insert (outdir cl) (dirs w)\<rparr> in
                     if jobs cl < 0 \<or> chan_max ev < jobs cl
                     then Some (Panic, w1, [])
                     else (case run_sched ev (nat (jobs cl)) (outdir cl) entries (init entries w1) sched of
                             None \<Rightarrow> None
                           | Some s \<Rightarrow>
                               if length (got s) = length entries
                               then Some (finish ev (outdir cl) s)
                               else if stuck ev (nat (jobs cl)) (outdir cl) entries s
                               then Some (Deadlock, wld s, tty s)
                               else None))))"

section \<open>A sample environment\<close>

text \<open>
  Three scripts: \<open>t1\<close> passes, \<open>t2\<close> fails, and the log of \<open>t3\<close> cannot be created.
\<close>

definition sample_env :: env where
  "sample_env =
     \<lparr>Join = (\<lambda>d f. d @ ''/'' @ f),
      Create_err = (\<lambda>p. if p = ''out/t3.log'' then Some ''permission denied'' else None),
      sh = (\<lambda>n. if n = ''t2''
                 then \<lparr>p_stdout = ''x'', p_stderr = ''boom'', p_err = Some ''exit status 1''\<rparr>
                 else \<lparr>p_stdout = ''a'' @ [LF] @ ''b'' @ [LF] @ ''c'' @ [LF], p_stderr = [], p_err = None\<rparr>),
      Glob = (\<lambda>g. if g = ''t*'' then Inr [''t1'', ''t2'', ''t3'']
                   else if g = ''t1'' then Inr [''t1'']
                   else if g = ''t2'' then Inr [''t2'']
                   else if g = ''t3'' then Inr [''t3'']
                   else if g = ''['' then Inl ''syntax error in pattern''
                   else Inr []),
      MkdirAll_err = (\<lambda>d. None),
      WriteFile_err = (\<lambda>p. None),
      os_Args = [''rungittest'', ''--outdir'', ''out''],
      now_text = ''2009-11-10T23:00:00Z'',
      elapsed_text = ''1s'',
      chan_max = 35184372088820\<rparr>"

definition sample_world :: world where
  "sample_world = \<lparr>files = Map.empty, dirs = {}, spawned = []\<rparr>"

section \<open>Notions for reasoning about schedules\<close>

text \<open>The goroutines whose result has gone into the \<open>results\<close> channel.\<close>

fun delivered :: "unit_state \<Rightarrow> bool" where
  "delivered Sent = True"
| "delivered Done = True"
| "delivered _ = False"

text \<open>The goroutines for which \<open>runTest\<close> has returned.\<close>

fun returned :: "unit_state \<Rightarrow> bool" where
  "returned Pending = False"
| "returned Holding = False"
| "returned _ = True"

text \<open>The number of steps a goroutine still has before it, and their total for a state.\<close>

fun weight :: "unit_state \<Rightarrow> nat" where
  "weight Pending = 4"
| "weight Holding = 3"
| "weight (Finished r) = 2"
| "weight Sent = 1"
| "weight Done = 0"

definition remaining :: "string list \<Rightarrow> state \<Rightarrow> nat" where
  "remaining es s = sum_list (map weight (units s)) + (length es - length (got s))"

text \<open>
  What holds of the channels in every state a schedule reaches: \<open>throttle\<close> holds one
  value per goroutine between its acquire and its release, never more than its capacity,
  and every delivered result is either still in \<open>results\<close> or has been received.
\<close>

definition sched_inv :: "nat \<Rightarrow> string list \<Rightarrow> state \<Rightarrow> bool" where
  "sched_inv J es s \<longleftrightarrow>
     length (units s) = length es
     \<and> throttle s = holders s
     \<and> throttle s \<le> J
     \<and> length (results s) + length (got s) = length (filter delivered (units s))"

text \<open>The run is over: every result has been received and every goroutine has returned.\<close>

definition finished :: "string list \<Rightarrow> state \<Rightarrow> bool" where
  "finished es s \<longleftrightarrow> length (got s) = length es \<and> list_all (\<lambda>u. u = Done) (units s)"

text \<open>
  The results that have gone into the \<open>results\<close> channel, when \<open>rs\<close> lists the result
  of each goroutine.
\<close>

definition sent_results :: "result list \<Rightarrow> unit_state list \<Rightarrow> result multiset" where
  "sent_results rs us = mset (map fst (filter (\<lambda>p. delivered (snd p)) (zip rs us)))"

text \<open>The logs of the goroutines for which \<open>runTest\<close> has returned and could create its log.\<close>

definition log_paths :: "env \<Rightarrow> string \<Rightarrow> string list \<Rightarrow> unit_state list \<Rightarrow> string set" where
  "log_paths ev out es us =
     {Join ev out (es ! i @ ''.log'') | i.
        i < length es \<and> returned (us ! i) \<and> Create_err ev (Join ev out (es ! i @ ''.log'')) = None}"

text \<open>
  What holds of the data in every state a schedule reaches from the world \<open>w0\<close>: a result
  in hand is the one \<open>runTest\<close> gives for that entry, the results received and waiting
  are those delivered, \<open>failed\<close> holds the names of the failed results received,
  and the files are those of \<open>w0\<close> and the logs.
\<close>

definition run_inv :: "env \<Rightarrow> string \<Rightarrow> string list \<Rightarrow> world \<Rightarrow> state \<Rightarrow> bool" where
  "run_inv ev out es w0 s \<longleftrightarrow>
     (\<forall>i<length es. \<forall>r. units s ! i = Finished r \<longrightarrow> r = fst (runTest ev (es ! i) out w0))
     \<and> mset (results s) + mset (got s)
         = sent_results (map (\<lambda>n. fst (runTest ev n out w0)) es) (units s)
     \<and> failed s = map name (filter (\<lambda>r. err r \<noteq> None) (got s))
     \<and> dom (files (wld s)) = dom (files w0) \<union> log_paths ev out es (units s)
     \<and> dirs (wld s) = dirs w0"

section \<open>Splitting into lines\<close>

lemma Split_Nil: "Split [] = [[]]"
  by (simp add: Split.simps)

lemma Split_LF: "Split (LF # cs) = [] # Split cs"
  by (simp add: Split.simps[of "LF # cs"])

lemma Split_Cons:
  "Split (c # cs) = (if c = LF then [] # Split cs else (c # hd (Split cs)) # tl (Split cs))"
proof (cases "dropWhile (\<lambda>c. c \<noteq> LF) cs")
  case Nil
  have "Split cs = [cs]"
    by (simp only: Split.simps[of cs] Nil list.case)
  moreover have "c \<noteq> LF \<Longrightarrow> Split (c # cs) = [c # cs]"
    by (simp add: Split.simps[of "c # cs"] Nil del: dropWhile_eq_Nil_conv)
  moreover have "c = LF \<Longrightarrow> Split (c # cs) = [] # Split cs"
    by (simp add: Split_LF)
  ultimately show ?thesis by simp
next
  case (Cons x rest)
  have "Split cs = takeWhile (\<lambda>c. c \<noteq> LF) cs # Split rest"
    by (simp only: Split.simps[of cs] Cons list.case)
  moreover have "c \<noteq> LF \<Longrightarrow>
      Split (c # cs) = (c # takeWhile (\<lambda>c. c \<noteq> LF) cs) # Split rest"
    by (simp add: Split.simps[of "c # cs"] Cons)
  moreover have "c = LF \<Longrightarrow> Split (c # cs) = [] # Split cs"
    by (simp add: Split_LF)
  ultimately show ?thesis by simp
qed

lemma Split_not_Nil: "Split s \<noteq> []"
  by (induction s) (simp_all add: Split_Nil Split_Cons)

lemma Join_strings_Cons:
  "ys \<noteq> [] \<Longrightarrow> Join_strings (x # ys) sep = x @ sep @ Join_strings ys sep"
  by (cases ys) simp_all

text \<open>Splitting loses nothing: putting the line feeds back gives the bytes again.\<close>

lemma Join_Split: "Join_strings (Split s) [LF] = s"
proof (induction s)
  case Nil
  show ?case by (simp add: Split_Nil)
next
  case (Cons c cs)
  obtain l ls where ls: "Split cs = l # ls"
    using Split_not_Nil[of cs] by (cases "Split cs") auto
  show ?case
  proof (cases "c = LF")
    case True
    then show ?thesis using Cons by (simp add: Split_Cons Join_strings_Cons Split_not_Nil)
  next
    case False
    then show ?thesis using Cons ls by (cases ls) (simp_all add: Split_Cons)
  qed
qed

lemma Split_no_LF: "l \<in> set (Split s) \<Longrightarrow> LF \<notin> set l"
proof (induction s arbitrary: l)
  case Nil
  then show ?case by (simp add: Split_Nil)
next
  case (Cons c cs)
  obtain k ks where ks: "Split cs = k # ks"
    using Split_not_Nil[of cs] by (cases "Split cs") auto
  show ?case using Cons ks by (auto simp: Split_Cons split: if_splits)
qed

lemma length_Split: "length (Split s) = Suc (count_list s LF)"
proof (induction s)
  case Nil
  show ?case by (simp add: Split_Nil)
next
  case (Cons c cs)
  obtain k ks where ks: "Split cs = k # ks"
    using Split_not_Nil[of cs] by (cases "Split cs") auto
  show ?case using Cons ks by (simp add: Split_Cons)
qed

section \<open>The summary of one test\<close>

text \<open>
  C1. When the log could be created, the summary of the result is \<open>ok: \<close> or \<open>error: \<close>
  (by whether the process returned an error) followed by the body: the element at index
  \<open>count - 3\<close> of the split of the captured standard output when the split has at least
  three elements, and the empty string otherwise. The split is the one on line feeds:
  joining its elements with line feeds gives the output back, no element contains a
  line feed, and the count is one more than the number of line feeds.
\<close>

theorem runTest_summary:
  assumes "Create_err ev (Join ev dir (nm @ ''.log'')) = None"
  shows "summary (fst (runTest ev nm dir w)) =
           (if p_err (sh ev nm) = None then ''ok: '' else ''error: '')
           @ (let ls = Split (p_stdout (sh ev nm))
              in if 3 \<le> length ls then ls ! (length ls - 3) else [])
         \<and> Join_strings (Split (p_stdout (sh ev nm))) [LF] = p_stdout (sh ev nm)
         \<and> (\<forall>l \<in> set (Split (p_stdout (sh ev nm))). LF \<notin> set l)
         \<and> length (Split (p_stdout (sh ev nm))) = Suc (count_list (p_stdout (sh ev nm)) LF)"
proof -
  let ?out = "p_stdout (sh ev nm)"
  have body: "summary_body ?out =
      (let ls = Split ?out in if 3 \<le> length ls then ls ! (length ls - 3) else [])"
    by (simp add: summary_body_def Let_def)
  have "summary (fst (runTest ev nm dir w)) = summary_of (p_err (sh ev nm)) ?out"
    using assms by (simp add: runTest_def Let_def)
  also have "\<dots> = (if p_err (sh ev nm) = None then ''ok: '' else ''error: '') @ summary_body ?out"
    by (simp add: summary_of_def)
  finally show ?thesis
    using body by (simp add: Join_Split Split_no_LF length_Split)
qed

theorem runTest_summary_witness:
  "Create_err sample_env (Join sample_env ''out'' (''t1'' @ ''.log'')) = None
   \<and> summary (fst (runTest sample_env ''t1'' ''out'' sample_world)) = ''ok: b''
   \<and> summary (fst (runTest sample_env ''t2'' ''out'' sample_world)) = ''error: ''"
  using runTest_summary[of sample_env "''out''" "''t1''" sample_world]
        runTest_summary[of sample_env "''out''" "''t2''" sample_world]
  by (simp add: sample_env_def Split_Cons Split_Nil)

text \<open>
  C4, as the specification has it, fails: for the output \<open>a\<close>, \<open>b\<close>, \<open>c\<close>, each followed
  by a line feed, the split has four elements (the last one empty), and the body is \<open>b\<close>.
\<close>

theorem summary_abc_counterexample:
  "p_stdout (sh sample_env ''t1'') = ''a'' @ [LF] @ ''b'' @ [LF] @ ''c'' @ [LF]
   \<and> p_err (sh sample_env ''t1'') = None
   \<and> Create_err sample_env (Join sample_env ''out'' (''t1'' @ ''.log'')) = None
   \<and> summary (fst (runTest sample_env ''t1'' ''out'' sample_world)) = ''ok: b''
   \<and> summary (fst (runTest sample_env ''t1'' ''out'' sample_world)) \<noteq> ''ok: a''"
  by (simp add: sample_env_def runTest_def summary_of_def summary_body_def Split_Cons Split_Nil)

text \<open>
  C4, amended. A test whose standard output is exactly \<open>a\<close>, \<open>b\<close>, \<open>c\<close>, each followed by
  a line feed, has the summary body \<open>b\<close>; a test whose output splits into fewer than three
  elements has the empty body; the body is prefixed with \<open>ok: \<close> on success and with
  \<open>error: \<close> on failure.
\<close>

theorem summary_examples:
  assumes "Create_err ev (Join ev dir (nm @ ''.log'')) = None"
  shows "(p_stdout (sh ev nm) = ''a'' @ [LF] @ ''b'' @ [LF] @ ''c'' @ [LF] \<longrightarrow>
            summary (fst (runTest ev nm dir w)) =
              (if p_err (sh ev nm) = None then ''ok: '' else ''error: '') @ ''b'')
         \<and> (length (Split (p_stdout (sh ev nm))) < 3 \<longrightarrow>
            summary (fst (runTest ev nm dir w)) =
              (if p_err (sh ev nm) = None then ''ok: '' else ''error: ''))"
  using assms
  by (simp add: runTest_def summary_of_def summary_body_def Let_def Split_Cons Split_Nil)

theorem summary_examples_witness:
  "Create_err sample_env (Join sample_env ''out'' (''t1'' @ ''.log'')) = None
   \<and> p_stdout (sh sample_env ''t1'') = ''a'' @ [LF] @ ''b'' @ [LF] @ ''c'' @ [LF]
   \<and> summary (fst (runTest sample_env ''t1'' ''out'' sample_world)) = ''ok: b''
   \<and> length (Split (p_stdout (sh sample_env ''t2''))) < 3
   \<and> summary (fst (runTest sample_env ''t2'' ''out'' sample_world)) = ''error: ''"
  using summary_examples[of sample_env "''out''" "''t1''" sample_world]
        summary_examples[of sample_env "''out''" "''t2''" sample_world]
  by (simp add: sample_env_def Split_Cons Split_Nil)

section \<open>The two variants of runTest\<close>

text \<open>
  C10. For the same identifier, captured output and process outcome the two variants of
  \<open>runTest\<close> return the same result, run the same command, and touch no file but the
  log. When the log cannot be created both leave the world as it is. Otherwise both write
  the standard-output section and then the standard-error section, each in full behind
  its marker, and the only difference is that the first variant puts the exit-status
  header in front of them.
\<close>

theorem variants_agree:
  "fst (runTest ev nm dir w) = fst (runTest_v2 ev nm dir w)
   \<and> spawned (snd (runTest ev nm dir w)) = spawned (snd (runTest_v2 ev nm dir w))
   \<and> dirs (snd (runTest ev nm dir w)) = dirs (snd (runTest_v2 ev nm dir w))
   \<and> (\<forall>p. p \<noteq> Join ev dir (nm @ ''.log'') \<longrightarrow>
          files (snd (runTest ev nm dir w)) p = files w p
          \<and> files (snd (runTest_v2 ev nm dir w)) p = files w p)
   \<and> (Create_err ev (Join ev dir (nm @ ''.log'')) \<noteq> None \<longrightarrow>
          snd (runTest ev nm dir w) = w \<and> snd (runTest_v2 ev nm dir w) = w)
   \<and> (Create_err ev (Join ev dir (nm @ ''.log'')) = None \<longrightarrow>
          (\<exists>sections.
             sections = [LF, LF] @ ''*** STDOUT: ***'' @ [LF, LF] @ p_stdout (sh ev nm)
                        @ [LF, LF] @ ''*** STDERR: ***'' @ [LF, LF] @ p_stderr (sh ev nm)
             \<and> files (snd (runTest_v2 ev nm dir w)) (Join ev dir (nm @ ''.log'')) = Some sections
             \<and> files (snd (runTest ev nm dir w)) (Join ev dir (nm @ ''.log'')) =
                 Some (''*** EXIT: ''
                       @ (case p_err (sh ev nm) of None \<Rightarrow> ''success'' | Some e \<Rightarrow> e)
                       @ '' ***'' @ sections)))"
proof (cases "Create_err ev (Join ev dir (nm @ ''.log''))")
  case None
  then show ?thesis
    by (simp add: runTest_def runTest_v2_def log_text_def log_text_v2_def Let_def
             split: option.splits)
next
  case (Some e)
  then have "runTest ev nm dir w = runTest_v2 ev nm dir w" "snd (runTest ev nm dir w) = w"
    by (simp_all add: runTest_def runTest_v2_def)
  then show ?thesis using Some by simp
qed

theorem variants_agree_witness:
  "Create_err sample_env (Join sample_env ''out'' (''t3'' @ ''.log'')) \<noteq> None
   \<and> snd (runTest sample_env ''t3'' ''out'' sample_world) = sample_world
   \<and> snd (runTest_v2 sample_env ''t3'' ''out'' sample_world) = sample_world
   \<and> Create_err sample_env (Join sample_env ''out'' (''t2'' @ ''.log'')) = None
   \<and> ''other'' \<noteq> Join sample_env ''out'' (''t2'' @ ''.log'')
   \<and> files (snd (runTest sample_env ''t2'' ''out'' sample_world)) ''other'' = None
   \<and> files (snd (runTest_v2 sample_env ''t2'' ''out'' sample_world)) ''out/t2.log'' =
        Some ([LF, LF] @ ''*** STDOUT: ***'' @ [LF, LF] @ ''x''
              @ [LF, LF] @ ''*** STDERR: ***'' @ [LF, LF] @ ''boom'')
   \<and> files (snd (runTest sample_env ''t2'' ''out'' sample_world)) ''out/t2.log'' =
        Some (''*** EXIT: exit status 1 ***'' @ [LF, LF] @ ''*** STDOUT: ***'' @ [LF, LF] @ ''x''
              @ [LF, LF] @ ''*** STDERR: ***'' @ [LF, LF] @ ''boom'')"
  using variants_agree[of sample_env "''t3''" "''out''" sample_world]
        variants_agree[of sample_env "''t2''" "''out''" sample_world]
  by (simp add: sample_env_def sample_world_def)

section \<open>When the log cannot be created\<close>

text \<open>
  C6, as the specification has it, fails: the cause recorded in the result is the error
  that creating the log returned, not the text \<open>create error\<close>; that text is the summary.
\<close>

theorem create_error_cause_counterexample:
  "Create_err sample_env (Join sample_env ''out'' (''t3'' @ ''.log'')) = Some ''permission denied''
   \<and> err (fst (runTest sample_env ''t3'' ''out'' sample_world)) = Some ''permission denied''
   \<and> err (fst (runTest sample_env ''t3'' ''out'' sample_world)) \<noteq> Some ''create error''"
  by (simp add: sample_env_def runTest_def)

text \<open>
  C6, amended. When the log of an identifier cannot be created, \<open>runTest\<close> returns a
  result that has failed with the creation error as its cause and whose summary is the
  fixed text \<open>create error\<close>; it runs no process and writes no file. The failure stays
  inside the result: the goroutine goes on with that result in hand like any other.
\<close>

theorem create_error_result:
  assumes "Create_err ev (Join ev dir (nm @ ''.log'')) = Some e"
  shows "err (fst (runTest ev nm dir w)) = Some e
         \<and> summary (fst (runTest ev nm dir w)) = ''create error''
         \<and> snd (runTest ev nm dir w) = w
         \<and> (\<forall>J es s i. i < length es \<and> length (units s) = length es \<and> es ! i = nm
                \<and> units s ! i = Holding \<longrightarrow>
              step ev J dir es s (Exec i) =
                Some (s\<lparr>units := (units s)[i := Finished (fst (runTest ev nm dir (wld s)))]\<rparr>))"
  using assms by (simp add: runTest_def)

theorem create_error_result_witness:
  "Create_err sample_env (Join sample_env ''out'' (''t3'' @ ''.log'')) = Some ''permission denied''
   \<and> err (fst (runTest sample_env ''t3'' ''out'' sample_world)) = Some ''permission denied''
   \<and> summary (fst (runTest sample_env ''t3'' ''out'' sample_world)) = ''create error''
   \<and> snd (runTest sample_env ''t3'' ''out'' sample_world) = sample_world"
  using create_error_result[of sample_env "''out''" "''t3''" "''permission denied''" sample_world]
  by (simp add: sample_env_def)

text \<open>
  C7 does not hold of the code. On the path where the log cannot be created the result
  is built without its name, so the name is empty: the progress line of the third test
  shows no name, and the summary file lists an empty line where \<open>t3\<close> belongs.
\<close>

theorem create_error_loses_name:
  "Create_err sample_env (Join sample_env ''out'' (''t3'' @ ''.log'')) = Some ''permission denied''
   \<and> name (fst (runTest sample_env ''t3'' ''out'' sample_world)) = []
   \<and> name (fst (runTest sample_env ''t3'' ''out'' sample_world)) \<noteq> ''t3''
   \<and> (\<exists>w'. main sample_env \<lparr>jobs = 1, outdir = ''out'', patterns = [''t*'']\<rparr> sample_world
              [Acquire 2, Exec 2, Send 2, Receive, Release 2, Acquire 0, Exec 0, Send 0, Receive,
               Release 0, Acquire 1, Exec 1, Send 1, Receive]
            = Some (Exit0, w',
                    [Progress 1 3 [] ''create error'', Newline,
                     Progress 2 3 ''t1'' ''ok: b'',
                     Progress 3 3 ''t2'' ''error: '', Newline,
                     Newline, Final 2 ''1s''])
          \<and> files w' ''out/summary.txt'' =
              Some (''# run [rungittest --outdir out]'' @ [LF]
                    @ ''# on 2009-11-10T23:00:00Z, elapsed 1s:'' @ [LF]
                    @ [LF] @ ''t2''))"
  by (simp add: sample_env_def sample_world_def runTest_def main_def init_def finish_def
        summary_of_def summary_body_def summary_text_def show_args_def Split_Cons Split_Nil)

section \<open>Counting goroutines\<close>

lemma count_update:
  "i < length xs \<Longrightarrow>
   length (filter P (xs[i := y])) + (if P (xs ! i) then 1 else 0)
     = length (filter P xs) + (if P y then 1 else 0)"
proof (induction xs arbitrary: i)
  case Nil
  then show ?case by simp
next
  case (Cons x xs)
  show ?case
  proof (cases i)
    case 0
    then show ?thesis by simp
  next
    case (Suc j)
    then have "j < length xs" using Cons.prems by simp
    from Cons.IH[OF this] show ?thesis using Suc by simp
  qed
qed

lemma count_update_same:
  "i < length xs \<Longrightarrow> P (xs ! i) = P y \<Longrightarrow> length (filter P (xs[i := y])) = length (filter P xs)"
  using count_update[of i xs P y] by (simp split: if_splits)

lemma count_update_gain:
  "i < length xs \<Longrightarrow> \<not> P (xs ! i) \<Longrightarrow> P y \<Longrightarrow>
   length (filter P (xs[i := y])) = Suc (length (filter P xs))"
  using count_update[of i xs P y] by simp

lemma count_update_lose:
  "i < length xs \<Longrightarrow> P (xs ! i) \<Longrightarrow> \<not> P y \<Longrightarrow>
   Suc (length (filter P (xs[i := y]))) = length (filter P xs)"
  using count_update[of i xs P y] by simp

lemma weight_update:
  "i < length xs \<Longrightarrow> weight (xs ! i) = Suc (weight y) \<Longrightarrow>
   Suc (sum_list (map weight (xs[i := y]))) = sum_list (map weight xs)"
proof (induction xs arbitrary: i)
  case Nil
  then show ?case by simp
next
  case (Cons x xs)
  show ?case
  proof (cases i)
    case 0
    then show ?thesis using Cons.prems by simp
  next
    case (Suc j)
    then have "j < length xs" "weight (xs ! j) = Suc (weight y)" using Cons.prems by simp_all
    from Cons.IH[OF this] show ?thesis using Suc by simp
  qed
qed

lemma init_inv: "sched_inv J es (init es w)"
  by (simp add: sched_inv_def init_def holders_def)

lemma step_inv:
  assumes "sched_inv J es s" and "step ev J out es s a = Some s'"
  shows "sched_inv J es s'"
proof (cases a)
  case (Acquire i)
  then show ?thesis using assms
    by (auto simp: sched_inv_def holders_def count_update_gain count_update_same split: if_splits)
next
  case (Exec i)
  then show ?thesis using assms
    by (auto simp: sched_inv_def holders_def count_update_same split: if_splits prod.splits)
next
  case (Send i)
  then show ?thesis using assms
    by (auto simp: sched_inv_def holders_def count_update_gain count_update_same
             split: if_splits unit_state.splits)
next
  case (Release i)
  have lose: "i < length (units s) \<Longrightarrow> units s ! i = Sent \<Longrightarrow>
      Suc (length (filter holds ((units s)[i := Done]))) = length (filter holds (units s))"
    by (rule count_update_lose) simp_all
  show ?thesis using assms Release lose
    by (auto simp: sched_inv_def holders_def count_update_same split: if_splits)
next
  case Receive
  then show ?thesis using assms
    by (auto simp: sched_inv_def holders_def split: if_splits list.splits)
qed

lemma step_remaining:
  assumes "step ev J out es s a = Some s'"
  shows "Suc (remaining es s') = remaining es s"
proof (cases a)
  case (Acquire i)
  then show ?thesis using assms weight_update[of i "units s" Holding]
    by (auto simp: remaining_def split: if_splits)
next
  case (Exec i)
  then show ?thesis using assms
    by (auto simp: remaining_def split: if_splits prod.splits
             dest!: weight_update[of i "units s" "Finished _"])
next
  case (Send i)
  then show ?thesis using assms weight_update[of i "units s" Sent]
    by (auto simp: remaining_def split: if_splits unit_state.splits)
next
  case (Release i)
  then show ?thesis using assms weight_update[of i "units s" Done]
    by (auto simp: remaining_def split: if_splits)
next
  case Receive
  then show ?thesis using assms
    by (auto simp: remaining_def split: if_splits list.splits)
qed


lemma run_sched_remaining:
  "run_sched ev J out es s sched = Some s' \<Longrightarrow> remaining es s' + length sched = remaining es s"
proof (induction sched arbitrary: s)
  case Nil
  then show ?case by simp
next
  case (Cons a sched)
  from Cons.prems obtain s1 where a: "step ev J out es s a = Some s1"
    and rest: "run_sched ev J out es s1 sched = Some s'"
    by (auto split: option.splits)
  show ?case using Cons.IH[OF rest] step_remaining[OF a] by simp
qed

lemma remaining_init: "remaining es (init es w) = 5 * length es"
  by (simp add: remaining_def init_def sum_list_replicate)

lemma unit_cases:
  assumes "\<not> list_all (\<lambda>u. u = Done) us"
  obtains i where "i < length us" "us ! i = Holding"
  | i r where "i < length us" "us ! i = Finished r"
  | i where "i < length us" "us ! i = Sent"
  | i where "i < length us" "us ! i = Pending" "list_all (\<lambda>u. u = Pending \<or> u = Done) us"
proof -
  from assms obtain k where k: "k < length us" "us ! k \<noteq> Done"
    by (auto simp: list_all_length)
  show ?thesis
  proof (cases "list_all (\<lambda>u. u = Pending \<or> u = Done) us")
    case True
    then have "us ! k = Pending" using k by (auto simp: list_all_length)
    then show ?thesis using that(4) k True by blast
  next
    case False
    then obtain j where j: "j < length us" "us ! j \<noteq> Pending" "us ! j \<noteq> Done"
      by (auto simp: list_all_length)
    then show ?thesis using that(1,2,3) by (cases "us ! j") auto
  qed
qed

lemma holders_zero:
  "list_all (\<lambda>u. u = Pending \<or> u = Done) us \<Longrightarrow> length (filter holds us) = 0"
  by (induction us) auto

lemma delivered_all: "list_all (\<lambda>u. u = Done) us \<Longrightarrow> length (filter delivered us) = length us"
  by (induction us) auto

lemma progress:
  assumes inv: "sched_inv J es s" and J: "0 < J" and nf: "\<not> finished es s"
  shows "\<exists>a s'. step ev J out es s a = Some s'"
proof (cases "list_all (\<lambda>u. u = Done) (units s)")
  case True
  then have "length (results s) + length (got s) = length es"
    using inv delivered_all[of "units s"] by (simp add: sched_inv_def)
  moreover have "length (got s) \<noteq> length es" using nf True by (simp add: finished_def)
  ultimately have "length (got s) < length es" "results s \<noteq> []" by auto
  then have "step ev J out es s Receive \<noteq> None" by (auto split: list.splits)
  then show ?thesis by blast
next
  case False
  have len: "length (units s) = length es" using inv by (simp add: sched_inv_def)
  from False show ?thesis
  proof (cases rule: unit_cases)
    case (1 i)
    then have "step ev J out es s (Exec i) \<noteq> None" using len by (auto split: prod.splits)
    then show ?thesis by blast
  next
    case (2 i r)
    then have "units s ! i \<in> set (units s)" "\<not> delivered (units s ! i)"
      using nth_mem[of i "units s"] by simp_all
    then have "length (filter delivered (units s)) < length (units s)"
      by (rule length_filter_less)
    then have "length (results s) < length es" using inv by (simp add: sched_inv_def)
    then have "step ev J out es s (Send i) \<noteq> None" using 2 by simp
    then show ?thesis by blast
  next
    case (3 i)
    then have "units s ! i \<in> set (filter holds (units s))"
      using nth_mem[of i "units s"] by simp
    then have "0 < length (filter holds (units s))" by (rule length_pos_if_in_set)
    then have "0 < throttle s" using inv by (simp add: sched_inv_def holders_def)
    then have "step ev J out es s (Release i) \<noteq> None" using 3 by simp
    then show ?thesis by blast
  next
    case (4 i)
    then have "throttle s = 0" using inv holders_zero by (simp add: sched_inv_def holders_def)
    then have "step ev J out es s (Acquire i) \<noteq> None" using 4 J by simp
    then show ?thesis by blast
  qed
qed

lemma completes:
  assumes "sched_inv J es s" and "0 < J"
  shows "\<exists>more s'. run_sched ev J out es s more = Some s' \<and> finished es s'"
  using assms
proof (induction "remaining es s" arbitrary: s rule: less_induct)
  case less
  show ?case
  proof (cases "finished es s")
    case True
    then have "run_sched ev J out es s [] = Some s \<and> finished es s" by simp
    then show ?thesis by blast
  next
    case False
    then obtain a s1 where a: "step ev J out es s a = Some s1"
      using progress[OF less.prems(1) less.prems(2)] by blast
    then have "remaining es s1 < remaining es s" using step_remaining[OF a] by simp
    moreover have "sched_inv J es s1" using step_inv[OF less.prems(1) a] .
    ultimately obtain more s' where "run_sched ev J out es s1 more = Some s'" "finished es s'"
      using less.hyps less.prems(2) by blast
    then have "run_sched ev J out es s (a # more) = Some s' \<and> finished es s'" using a by simp
    then show ?thesis by blast
  qed
qed

lemma step_in_actions:
  assumes "step ev J out es s a = Some s'" and "length (units s) = length es"
  shows "a \<in> set (all_actions (length es))"
  using assms by (cases a) (auto simp: all_actions_def split: if_splits)

lemma not_stuck:
  assumes "sched_inv J es s" and "0 < J" and "\<not> finished es s"
  shows "\<not> stuck ev J out es s"
proof -
  obtain a s' where a: "step ev J out es s a = Some s'"
    using progress[OF assms] by blast
  then have "a \<in> set (all_actions (length es))"
    using step_in_actions assms(1) by (simp add: sched_inv_def)
  then show ?thesis using a by (auto simp: stuck_def list_all_iff)
qed



section \<open>What every reachable state satisfies\<close>

lemma fst_runTest_world: "fst (runTest ev nm dir w) = fst (runTest ev nm dir w')"
  by (simp add: runTest_def Let_def split: option.splits)

lemma dirs_runTest: "dirs (snd (runTest ev nm dir w)) = dirs w"
  by (simp add: runTest_def Let_def split: option.splits)

lemma dom_files_runTest:
  "dom (files (snd (runTest ev nm dir w))) =
     dom (files w) \<union> (if Create_err ev (Join ev dir (nm @ ''.log'')) = None
                        then {Join ev dir (nm @ ''.log'')} else {})"
  by (simp add: runTest_def Let_def split: option.splits)

lemma sent_results_same:
  "i < length us \<Longrightarrow> delivered (us ! i) = delivered y \<Longrightarrow>
   sent_results rs (us[i := y]) = sent_results rs us"
proof (induction us arbitrary: i rs)
  case Nil
  then show ?case by simp
next
  case (Cons u us)
  show ?case
  proof (cases rs)
    case Nil
    then show ?thesis by (simp add: sent_results_def)
  next
    case rs: (Cons r rs')
    show ?thesis
    proof (cases i)
      case 0
      then show ?thesis using Cons.prems rs by (simp add: sent_results_def)
    next
      case (Suc j)
      then have "sent_results rs' (us[j := y]) = sent_results rs' us"
        using Cons.IH[of j rs'] Cons.prems by simp
      then show ?thesis using Suc rs by (simp add: sent_results_def)
    qed
  qed
qed

lemma sent_results_gain:
  "i < length us \<Longrightarrow> length rs = length us \<Longrightarrow> \<not> delivered (us ! i) \<Longrightarrow> delivered y \<Longrightarrow>
   sent_results rs (us[i := y]) = add_mset (rs ! i) (sent_results rs us)"
proof (induction us arbitrary: i rs)
  case Nil
  then show ?case by simp
next
  case (Cons u us)
  then obtain r rs' where rs: "rs = r # rs'" by (cases rs) auto
  show ?case
  proof (cases i)
    case 0
    then show ?thesis using Cons.prems rs by (simp add: sent_results_def)
  next
    case (Suc j)
    then have "sent_results rs' (us[j := y]) = add_mset (rs' ! j) (sent_results rs' us)"
      using Cons.IH[of j rs'] Cons.prems rs by simp
    then show ?thesis using Suc rs by (simp add: sent_results_def)
  qed
qed

lemma sent_results_all:
  "length rs = length us \<Longrightarrow> list_all delivered us \<Longrightarrow> sent_results rs us = mset rs"
proof (induction us arbitrary: rs)
  case Nil
  then show ?case by (simp add: sent_results_def)
next
  case (Cons u us)
  then obtain r rs' where rs: "rs = r # rs'" by (cases rs) auto
  have "sent_results rs' us = mset rs'" using Cons rs by simp
  then show ?case using Cons.prems rs by (simp add: sent_results_def)
qed

lemma sent_results_init: "sent_results rs (replicate n Pending) = {#}"
proof (induction n arbitrary: rs)
  case 0
  show ?case by (simp add: sent_results_def)
next
  case (Suc n)
  show ?case using Suc[of "tl rs"] by (cases rs) (simp_all add: sent_results_def)
qed

lemma log_paths_same:
  "i < length us \<Longrightarrow> returned (us ! i) = returned y \<Longrightarrow>
   log_paths ev out es (us[i := y]) = log_paths ev out es us"
proof -
  assume a: "i < length us" "returned (us ! i) = returned y"
  have "\<And>j. returned (us[i := y] ! j) = returned (us ! j)"
    using a by (auto simp: nth_list_update)
  then show ?thesis by (simp add: log_paths_def)
qed

lemma log_paths_exec:
  assumes "i < length us" "i < length es" "\<not> returned (us ! i)" "returned y"
  shows "log_paths ev out es (us[i := y]) =
           log_paths ev out es us
           \<union> (if Create_err ev (Join ev out (es ! i @ ''.log'')) = None
               then {Join ev out (es ! i @ ''.log'')} else {})"
proof -
  have "\<And>j. returned (us[i := y] ! j) = (j = i \<or> returned (us ! j))"
    using assms by (auto simp: nth_list_update)
  then show ?thesis using assms by (auto simp: log_paths_def)
qed

lemma log_paths_init: "log_paths ev out es (replicate (length es) Pending) = {}"
  by (auto simp: log_paths_def)

lemma log_paths_all:
  assumes "length us = length es" "list_all returned us"
  shows "log_paths ev out es us =
           set (map (\<lambda>n. Join ev out (n @ ''.log''))
                 (filter (\<lambda>n. Create_err ev (Join ev out (n @ ''.log'')) = None) es))"
proof -
  have "\<And>i. i < length es \<Longrightarrow> returned (us ! i)" using assms by (simp add: list_all_length)
  then show ?thesis by (auto simp: log_paths_def in_set_conv_nth)
qed

lemma init_run_inv: "run_inv ev out es w (init es w)"
  by (simp add: run_inv_def init_def sent_results_init log_paths_init)


lemma step_run_inv:
  assumes len: "length (units s) = length es"
    and inv: "run_inv ev out es w0 s"
    and st: "step ev J out es s a = Some s'"
  shows "run_inv ev out es w0 s'"
proof (cases a)
  case (Acquire i)
  then have s': "s' = s\<lparr>units := (units s)[i := Holding], throttle := Suc (throttle s)\<rparr>"
    and i: "i < length (units s)" "units s ! i = Pending"
    using st by (auto split: if_splits)
  show ?thesis using inv i
    by (auto simp: s' run_inv_def nth_list_update sent_results_same log_paths_same)
next
  case (Exec i)
  then have i: "i < length (units s)" "i < length es" "units s ! i = Holding"
    and s': "s' = s\<lparr>units := (units s)[i := Finished (fst (runTest ev (es ! i) out (wld s)))],
                    wld := snd (runTest ev (es ! i) out (wld s))\<rparr>"
    using st by (auto split: if_splits prod.splits)
  have r: "fst (runTest ev (es ! i) out (wld s)) = fst (runTest ev (es ! i) out w0)"
    by (rule fst_runTest_world)
  have paths: "log_paths ev out es ((units s)[i := Finished (fst (runTest ev (es ! i) out w0))]) =
      log_paths ev out es (units s)
      \<union> (if Create_err ev (Join ev out (es ! i @ ''.log'')) = None
          then {Join ev out (es ! i @ ''.log'')} else {})"
    using i by (intro log_paths_exec) simp_all
  have sent: "sent_results rs ((units s)[i := Finished r']) = sent_results rs (units s)" for rs r'
    using i by (intro sent_results_same) simp_all
  show ?thesis using inv i
    by (auto simp: s' r run_inv_def nth_list_update sent paths dirs_runTest dom_files_runTest)
next
  case (Send i)
  then obtain r where i: "i < length (units s)" "units s ! i = Finished r"
    and s': "s' = s\<lparr>units := (units s)[i := Sent], results := results s @ [r]\<rparr>"
    using st by (auto split: if_splits unit_state.splits)
  have r: "r = fst (runTest ev (es ! i) out w0)" using inv i len by (simp add: run_inv_def)
  have sent: "sent_results (map (\<lambda>n. fst (runTest ev n out w0)) es) ((units s)[i := Sent]) =
      add_mset r (sent_results (map (\<lambda>n. fst (runTest ev n out w0)) es) (units s))"
    using i len r by (subst sent_results_gain) simp_all
  have paths: "log_paths ev out es ((units s)[i := Sent]) = log_paths ev out es (units s)"
    using i by (intro log_paths_same) simp_all
  show ?thesis using inv i
    by (auto simp: s' run_inv_def nth_list_update sent paths)
next
  case (Release i)
  then have s': "s' = s\<lparr>units := (units s)[i := Done], throttle := throttle s - 1\<rparr>"
    and i: "i < length (units s)" "units s ! i = Sent"
    using st by (auto split: if_splits)
  show ?thesis using inv i
    by (auto simp: s' run_inv_def nth_list_update sent_results_same log_paths_same)
next
  case Receive
  then obtain r rs where rs: "results s = r # rs"
    and s': "s' = s\<lparr>results := rs, got := got s @ [r],
                 tty := tty s @ Progress (Suc (length (got s))) (length es) (name r) (summary r)
                                # (if err r \<noteq> None then [Newline] else []),
                 failed := (if err r \<noteq> None then failed s @ [name r] else failed s)\<rparr>"
    using st by (auto split: if_splits list.splits)
  have "mset (results s) + mset (got s) = mset rs + mset (got s @ [r])"
    using rs by simp
  then show ?thesis using inv
    by (simp add: s' run_inv_def)
qed

lemma run_sched_invs:
  "sched_inv J es s \<Longrightarrow> run_inv ev out es w0 s \<Longrightarrow> run_sched ev J out es s sched = Some s' \<Longrightarrow>
   sched_inv J es s' \<and> run_inv ev out es w0 s'"
proof (induction sched arbitrary: s)
  case Nil
  then show ?case by simp
next
  case (Cons a sched)
  from Cons.prems(3) obtain s1 where a: "step ev J out es s a = Some s1"
    and rest: "run_sched ev J out es s1 sched = Some s'"
    by (auto split: option.splits)
  have "sched_inv J es s1" using step_inv[OF Cons.prems(1) a] .
  moreover have "run_inv ev out es w0 s1"
    using step_run_inv[OF _ Cons.prems(2) a] Cons.prems(1) by (simp add: sched_inv_def)
  ultimately show ?case using Cons.IH rest by blast
qed

lemma reach_invs:
  "run_sched ev J out es (init es w) sched = Some s \<Longrightarrow> sched_inv J es s \<and> run_inv ev out es w s"
  using run_sched_invs[OF init_inv init_run_inv] by blast

lemma all_delivered:
  assumes "sched_inv J es s" "length (got s) = length es"
  shows "list_all delivered (units s) \<and> results s = []"
proof -
  have "length (results s) + length es = length (filter delivered (units s))"
    using assms by (simp add: sched_inv_def)
  moreover have "length (filter delivered (units s)) \<le> length es"
    using assms(1) length_filter_le[of delivered "units s"] by (simp add: sched_inv_def)
  ultimately have "length (results s) = 0 \<and> length (filter delivered (units s)) = length es"
    by arith
  then have r: "results s = []" and
    f: "length (filter delivered (units s)) = length (units s)"
    using assms by (simp_all add: sched_inv_def)
  have "list_all delivered (units s)"
  proof (rule ccontr)
    assume "\<not> list_all delivered (units s)"
    then obtain u where "u \<in> set (units s)" "\<not> delivered u" by (auto simp: list_all_iff)
    then have "length (filter delivered (units s)) < length (units s)"
      by (rule length_filter_less)
    then show False using f by simp
  qed
  then show ?thesis using r by simp
qed

lemma delivered_returned: "list_all delivered us \<Longrightarrow> list_all returned us"
proof (induction us)
  case Nil
  show ?case by simp
next
  case (Cons u us)
  then show ?case by (cases u) simp_all
qed


lemma holders_finished: "finished es s \<Longrightarrow> holders s = 0"
proof -
  have "list_all (\<lambda>u. u = Done) us \<Longrightarrow> length (filter holds us) = 0" for us
    by (induction us) auto
  then show "finished es s \<Longrightarrow> holders s = 0" by (simp add: finished_def holders_def)
qed

section \<open>The worker budget\<close>

text \<open>
  C3. In every state that any schedule of the concurrent part reaches, at most \<open>J\<close> (the
  value of \<open>--jobs\<close>) goroutines hold a slot of \<open>throttle\<close>, and the channel holds exactly
  one value per holder. A goroutine that holds a slot is never blocked on its way to the
  release: \<open>runTest\<close> returns whatever happens inside it (a log that cannot be created
  included), the send on \<open>results\<close> goes through, and so does the deferred receive,
  after which fewer than \<open>J\<close> slots are held. So when the budget has a slot at all, the
  run is never stuck before it is over: tests waiting behind a full budget get their turn,
  and the run can always be brought to the end, where every result has been received and
  no slot is held. No schedule is longer than five steps per test.
\<close>

theorem budget_invariant:
  assumes "run_sched ev J out es (init es w) sched = Some s"
  shows "holders s \<le> J \<and> throttle s = holders s
    \<and> (\<forall>i<length es. units s ! i = Holding \<longrightarrow>
          step ev J out es s (Exec i) =
            Some (s\<lparr>units := (units s)[i := Finished (fst (runTest ev (es ! i) out (wld s)))],
                    wld := snd (runTest ev (es ! i) out (wld s))\<rparr>))
    \<and> (\<forall>i<length es. \<forall>r. units s ! i = Finished r \<longrightarrow>
          step ev J out es s (Send i) =
            Some (s\<lparr>units := (units s)[i := Sent], results := results s @ [r]\<rparr>))
    \<and> (\<forall>i<length es. units s ! i = Sent \<longrightarrow>
          step ev J out es s (Release i) =
            Some (s\<lparr>units := (units s)[i := Done], throttle := throttle s - 1\<rparr>)
          \<and> holders (s\<lparr>units := (units s)[i := Done], throttle := throttle s - 1\<rparr>) < J)
    \<and> (0 < J \<longrightarrow>
          (\<exists>more s'. run_sched ev J out es s more = Some s' \<and> finished es s' \<and> holders s' = 0))
    \<and> (0 < J \<and> \<not> finished es s \<longrightarrow> \<not> stuck ev J out es s)
    \<and> length sched \<le> 5 * length es"
proof -
  have bound: "length sched \<le> 5 * length es"
    using run_sched_remaining[OF assms] by (simp add: remaining_init)
  have inv: "sched_inv J es s" using reach_invs[OF assms] by simp
  then have len: "length (units s) = length es" and thr: "throttle s = holders s"
    and le: "throttle s \<le> J"
    and cnt: "length (results s) + length (got s) = length (filter delivered (units s))"
    by (simp_all add: sched_inv_def)
  have exec: "step ev J out es s (Exec i) =
            Some (s\<lparr>units := (units s)[i := Finished (fst (runTest ev (es ! i) out (wld s)))],
                    wld := snd (runTest ev (es ! i) out (wld s))\<rparr>)"
    if "i < length es" "units s ! i = Holding" for i
    using that len by (simp add: case_prod_beta)
  have send: "step ev J out es s (Send i) =
            Some (s\<lparr>units := (units s)[i := Sent], results := results s @ [r]\<rparr>)"
    if "i < length es" "units s ! i = Finished r" for i r
  proof -
    have "units s ! i \<in> set (units s)" "\<not> delivered (units s ! i)"
      using that len nth_mem[of i "units s"] by simp_all
    then have "length (filter delivered (units s)) < length (units s)"
      by (rule length_filter_less)
    then have "length (results s) < length es" using cnt len by simp
    then show ?thesis using that len by simp
  qed
  have release: "step ev J out es s (Release i) =
            Some (s\<lparr>units := (units s)[i := Done], throttle := throttle s - 1\<rparr>)
          \<and> holders (s\<lparr>units := (units s)[i := Done], throttle := throttle s - 1\<rparr>) < J"
    if "i < length es" "units s ! i = Sent" for i
  proof -
    have "units s ! i \<in> set (filter holds (units s))"
      using that len nth_mem[of i "units s"] by simp
    then have "0 < length (filter holds (units s))" by (rule length_pos_if_in_set)
    then have pos: "0 < throttle s" using thr by (simp add: holders_def)
    then have st: "step ev J out es s (Release i) =
            Some (s\<lparr>units := (units s)[i := Done], throttle := throttle s - 1\<rparr>)"
      using that len by simp
    have "sched_inv J es (s\<lparr>units := (units s)[i := Done], throttle := throttle s - 1\<rparr>)"
      using step_inv[OF inv st] .
    then have "holders (s\<lparr>units := (units s)[i := Done], throttle := throttle s - 1\<rparr>)
                 = throttle s - 1"
      by (simp add: sched_inv_def)
    then show ?thesis using st pos le by simp
  qed
  have fin: "\<exists>more s'. run_sched ev J out es s more = Some s' \<and> finished es s' \<and> holders s' = 0"
    if "0 < J"
    using completes[OF inv that, of ev out] holders_finished by blast
  have live: "\<not> stuck ev J out es s" if "0 < J" "\<not> finished es s"
    using not_stuck[OF inv that] .
  show ?thesis using inv exec send release fin live bound
    by (simp add: sched_inv_def)
qed

theorem budget_invariant_witness:
  "\<exists>s. run_sched sample_env 1 ''out'' [''t1'', ''t2'', ''t3'']
          (init [''t1'', ''t2'', ''t3''] sample_world) [Acquire 2, Exec 2, Send 2] = Some s
      \<and> units s = [Pending, Pending, Sent]
      \<and> 2 < length [''t1'', ''t2'', ''t3''] \<and> (0::nat) < 1
      \<and> holders s = 1 \<and> holders s \<le> 1 \<and> throttle s = holders s
      \<and> step sample_env 1 ''out'' [''t1'', ''t2'', ''t3''] s (Acquire 0) = None
      \<and> step sample_env 1 ''out'' [''t1'', ''t2'', ''t3''] s (Release 2)
           = Some (s\<lparr>units := (units s)[2 := Done], throttle := throttle s - 1\<rparr>)
      \<and> holders (s\<lparr>units := (units s)[2 := Done], throttle := throttle s - 1\<rparr>) < 1
      \<and> \<not> finished [''t1'', ''t2'', ''t3''] s
      \<and> \<not> stuck sample_env 1 ''out'' [''t1'', ''t2'', ''t3''] s
      \<and> (\<exists>more s'. run_sched sample_env 1 ''out'' [''t1'', ''t2'', ''t3''] s more = Some s'
            \<and> finished [''t1'', ''t2'', ''t3''] s' \<and> holders s' = 0)"
proof -
  let ?es = "[''t1'', ''t2'', ''t3'']"
  obtain s where s: "run_sched sample_env 1 ''out'' ?es (init ?es sample_world)
      [Acquire 2, Exec 2, Send 2] = Some s"
    by (simp add: init_def sample_env_def runTest_def)
  have u: "units s = [Pending, Pending, Sent]" and t: "throttle s = 1"
    using s by (auto simp: init_def sample_env_def runTest_def)
  have nf: "\<not> finished ?es s" using u by (simp add: finished_def)
  have blocked: "step sample_env 1 ''out'' ?es s (Acquire 0) = None" using u t by simp
  show ?thesis
    using budget_invariant[OF s] s u t nf blocked
    by (intro exI[of _ s]) (simp add: holders_def)
qed

section \<open>How a whole run ends\<close>

lemma main_run:
  assumes "outdir cl \<noteq> []" "patterns cl \<noteq> []" "glob_all ev (patterns cl) [] = Inr es"
    "MkdirAll_err ev (outdir cl) = None" "0 \<le> jobs cl" "jobs cl \<le> chan_max ev"
  shows "main ev cl w sched =
     (case run_sched ev (nat (jobs cl)) (outdir cl) es
             (init es (w\<lparr>dirs := insert (outdir cl) (dirs w)\<rparr>)) sched of
        None \<Rightarrow> None
      | Some s \<Rightarrow>
          if length (got s) = length es then Some (finish ev (outdir cl) s)
          else if stuck ev (nat (jobs cl)) (outdir cl) es s then Some (Deadlock, wld s, tty s)
          else None)"
  using assms by (simp add: main_def Let_def)

lemma fst_finish:
  "fst (finish ev out s) =
     (case WriteFile_err ev (Join ev out ''summary.txt'') of None \<Rightarrow> Exit0 | Some e \<Rightarrow> Fatal e)"
  by (simp add: finish_def Let_def split: option.splits)

text \<open>
  With a slot to give and a channel that could be made, a run that ends has ended in
  the report: the collection loop has received a result for every entry.
\<close>

lemma main_ends:
  assumes pre: "outdir cl \<noteq> []" "patterns cl \<noteq> []" "glob_all ev (patterns cl) [] = Inr es"
    "MkdirAll_err ev (outdir cl) = None"
    and jobs: "0 < jobs cl" "jobs cl \<le> chan_max ev"
    and m: "main ev cl w sched = Some r"
  shows "\<exists>s. run_sched ev (nat (jobs cl)) (outdir cl) es
               (init es (w\<lparr>dirs := insert (outdir cl) (dirs w)\<rparr>)) sched = Some s
             \<and> length (got s) = length es \<and> r = finish ev (outdir cl) s"
proof -
  let ?w1 = "w\<lparr>dirs := insert (outdir cl) (dirs w)\<rparr>"
  let ?J = "nat (jobs cl)"
  have nn: "0 \<le> jobs cl" using jobs by simp
  note run = main_run[OF pre nn jobs(2)]
  from m obtain s where s: "run_sched ev ?J (outdir cl) es (init es ?w1) sched = Some s"
    by (auto simp: run split: option.splits)
  have inv: "sched_inv ?J es s" using reach_invs[OF s] by simp
  have full: "length (got s) = length es"
  proof (rule ccontr)
    assume ne: "length (got s) \<noteq> length es"
    then have "\<not> finished es s" by (simp add: finished_def)
    then have "\<not> stuck ev ?J (outdir cl) es s" using not_stuck[OF inv] jobs by simp
    then show False using m s ne by (simp add: run)
  qed
  then have "r = finish ev (outdir cl) s" using m s by (simp add: run)
  then show ?thesis using s full by blast
qed

lemma card_logs:
  "card (set (map f (filter P es))) \<le> length es"
  "(\<exists>n \<in> set es. \<not> P n) \<Longrightarrow> card (set (map f (filter P es))) < length es"
  "\<not> distinct (map f es) \<Longrightarrow> card (set (map f (filter P es))) < length es"
proof -
  have le: "card (set (map f (filter P es))) \<le> length (filter P es)"
    using card_length[of "map f (filter P es)"] by simp
  then show "card (set (map f (filter P es))) \<le> length es"
    using length_filter_le[of P es] by linarith
  show "card (set (map f (filter P es))) < length es" if "\<exists>n \<in> set es. \<not> P n"
  proof -
    from that obtain n where "n \<in> set es" "\<not> P n" by blast
    then have "length (filter P es) < length es" by (rule length_filter_less)
    then show ?thesis using le by linarith
  qed
  show "card (set (map f (filter P es))) < length es" if nd: "\<not> distinct (map f es)"
  proof (cases "\<exists>n \<in> set es. \<not> P n")
    case True
    then obtain n where "n \<in> set es" "\<not> P n" by blast
    then have "length (filter P es) < length es" by (rule length_filter_less)
    then show ?thesis using le by linarith
  next
    case False
    then have "filter P es = es" by (simp add: filter_id_conv)
    moreover have "card (set (map f es)) \<noteq> length (map f es)"
      using nd card_distinct[of "map f es"] by blast
    moreover have "card (set (map f es)) \<le> length (map f es)" by (rule card_length)
    ultimately show ?thesis by simp
  qed
qed

section \<open>Results and logs of a run\<close>

text \<open>
  C2, as the specification has it, fails. Two patterns that both match \<open>t1\<close> submit it
  twice; the run gives two results but only the one log \<open>out/t1.log\<close>. A test whose log
  cannot be created gives a result and no log. With \<open>--jobs 0\<close> no goroutine ever gets
  a slot and the run gives no result at all, and with a count beyond what the run-time
  accepts as the size of a channel the program panics before any test is started.
\<close>

theorem log_count_counterexample:
  "glob_all sample_env [''t1'', ''t1''] [] = Inr [''t1'', ''t1'']
   \<and> main sample_env \<lparr>jobs = 1, outdir = ''out'', patterns = [''t1'', ''t1'']\<rparr> sample_world
        [Acquire 0, Exec 0, Send 0, Release 0, Acquire 1, Exec 1, Send 1, Release 1,
         Receive, Receive]
       = Some (Exit0,
               \<lparr>files = [''out/t1.log'' \<mapsto> log_text (sh sample_env ''t1''),
                         ''out/summary.txt'' \<mapsto> summary_text sample_env []],
                dirs = {''out''},
                spawned = [[''/bin/sh'', ''t1''], [''/bin/sh'', ''t1'']]\<rparr>,
               [Progress 1 2 ''t1'' ''ok: b'', Progress 2 2 ''t1'' ''ok: b'', Newline,
                Final 0 ''1s''])
   \<and> glob_all sample_env [''t*''] [] = Inr [''t1'', ''t2'', ''t3'']
   \<and> main sample_env \<lparr>jobs = 3, outdir = ''out'', patterns = [''t*'']\<rparr> sample_world
        [Acquire 0, Acquire 1, Acquire 2, Exec 0, Exec 1, Exec 2, Send 0, Send 1, Send 2,
         Receive, Receive, Receive]
       = Some (Exit0,
               \<lparr>files = [''out/t1.log'' \<mapsto> log_text (sh sample_env ''t1''),
                         ''out/t2.log'' \<mapsto> log_text (sh sample_env ''t2''),
                         ''out/summary.txt'' \<mapsto> summary_text sample_env [[], ''t2'']],
                dirs = {''out''},
                spawned = [[''/bin/sh'', ''t1''], [''/bin/sh'', ''t2'']]\<rparr>,
               [Progress 1 3 ''t1'' ''ok: b'', Progress 2 3 ''t2'' ''error: '', Newline,
                Progress 3 3 [] ''create error'', Newline, Newline, Final 2 ''1s''])
   \<and> main sample_env \<lparr>jobs = 0, outdir = ''out'', patterns = [''t*'']\<rparr> sample_world []
       = Some (Deadlock, sample_world\<lparr>dirs := {''out''}\<rparr>, [])
   \<and> main sample_env \<lparr>jobs = 4611686018427387904, outdir = ''out'', patterns = [''t*'']\<rparr>
        sample_world []
       = Some (Panic, sample_world\<lparr>dirs := {''out''}\<rparr>, [])"
  by (simp add: sample_env_def sample_world_def runTest_def main_def init_def finish_def
        summary_of_def summary_body_def Split_Cons Split_Nil stuck_def all_actions_def)

text \<open>
  C2, amended. Take a concurrency count that is positive and that the run-time accepts
  as the size of a channel, and \<open>N\<close> submitted identifiers (an identifier matched by
  several patterns is in the list once per match). Whatever the count and the schedule,
  a run that comes to its end has received exactly \<open>N\<close> results, and they are the results
  of \<open>runTest\<close> for the submitted identifiers, one per submission. The files the tests have
  written are the logs \<open>Join outdir (identifier + .log)\<close> of the submitted identifiers
  whose log could be created: at most \<open>N\<close>, and fewer than \<open>N\<close> when some log cannot be
  created or two submissions have the same log.
\<close>

theorem run_results:
  assumes "outdir cl \<noteq> []" and "patterns cl \<noteq> []"
    and "glob_all ev (patterns cl) [] = Inr es"
    and "MkdirAll_err ev (outdir cl) = None"
    and "0 < jobs cl" and "jobs cl \<le> chan_max ev"
    and "main ev cl w sched = Some r"
  shows "\<exists>s. run_sched ev (nat (jobs cl)) (outdir cl) es
               (init es (w\<lparr>dirs := insert (outdir cl) (dirs w)\<rparr>)) sched = Some s
           \<and> r = finish ev (outdir cl) s
           \<and> length (got s) = length es
           \<and> mset (got s) = mset (map (\<lambda>n. fst (runTest ev n (outdir cl) w)) es)
           \<and> (let logs = set (map (\<lambda>n. Join ev (outdir cl) (n @ ''.log''))
                             (filter (\<lambda>n. Create_err ev (Join ev (outdir cl) (n @ ''.log'')) = None)
                                es))
              in dom (files (wld s)) = dom (files w) \<union> logs
                 \<and> card logs \<le> length es
                 \<and> ((\<exists>n \<in> set es. Create_err ev (Join ev (outdir cl) (n @ ''.log'')) \<noteq> None)
                      \<longrightarrow> card logs < length es)
                 \<and> (\<not> distinct (map (\<lambda>n. Join ev (outdir cl) (n @ ''.log'')) es)
                      \<longrightarrow> card logs < length es))"
proof -
  let ?w1 = "w\<lparr>dirs := insert (outdir cl) (dirs w)\<rparr>"
  let ?out = "outdir cl"
  let ?path = "\<lambda>n. Join ev ?out (n @ ''.log'')"
  let ?ok = "\<lambda>n. Create_err ev (?path n) = None"
  obtain s where s: "run_sched ev (nat (jobs cl)) ?out es (init es ?w1) sched = Some s"
    and full: "length (got s) = length es" and r: "r = finish ev ?out s"
    using main_ends[OF assms] by blast
  have inv: "sched_inv (nat (jobs cl)) es s" and rinv: "run_inv ev ?out es ?w1 s"
    using reach_invs[OF s] by simp_all
  have all: "list_all delivered (units s)" and none: "results s = []"
    using all_delivered[OF inv full] by simp_all
  have len: "length (units s) = length es" using inv by (simp add: sched_inv_def)
  have "mset (got s) = sent_results (map (\<lambda>n. fst (runTest ev n ?out ?w1)) es) (units s)"
    using rinv none by (simp add: run_inv_def)
  also have "\<dots> = mset (map (\<lambda>n. fst (runTest ev n ?out ?w1)) es)"
    using len all by (intro sent_results_all) simp_all
  also have "\<dots> = mset (map (\<lambda>n. fst (runTest ev n ?out w)) es)"
    using fst_runTest_world[of ev _ ?out ?w1 w] by simp
  finally have res: "mset (got s) = mset (map (\<lambda>n. fst (runTest ev n ?out w)) es)" .
  have "dom (files (wld s)) = dom (files ?w1) \<union> log_paths ev ?out es (units s)"
    using rinv by (simp add: run_inv_def)
  then have logs: "dom (files (wld s)) = dom (files w) \<union> set (map ?path (filter ?ok es))"
    using log_paths_all[OF len delivered_returned[OF all], of ev ?out] by simp
  have c1: "card (set (map ?path (filter ?ok es))) \<le> length es"
    by (rule card_logs(1))
  have c2: "card (set (map ?path (filter ?ok es))) < length es"
    if "\<exists>n \<in> set es. Create_err ev (?path n) \<noteq> None"
    using that by (intro card_logs(2)) simp
  have c3: "card (set (map ?path (filter ?ok es))) < length es"
    if "\<not> distinct (map ?path es)"
    using that by (rule card_logs(3))
  show ?thesis
    using s r full res logs c1 c2 c3 by (intro exI[of _ s]) (simp add: Let_def)
qed

theorem run_results_witness:
  "outdir \<lparr>jobs = 2, outdir = ''out'', patterns = [''t*'', ''t1'']\<rparr> \<noteq> []
   \<and> patterns \<lparr>jobs = 2, outdir = ''out'', patterns = [''t*'', ''t1'']\<rparr> \<noteq> []
   \<and> glob_all sample_env [''t*'', ''t1''] [] = Inr [''t1'', ''t2'', ''t3'', ''t1'']
   \<and> MkdirAll_err sample_env ''out'' = None
   \<and> (0::int) < 2 \<and> (2::int) \<le> chan_max sample_env
   \<and> (\<exists>r s. main sample_env \<lparr>jobs = 2, outdir = ''out'', patterns = [''t*'', ''t1'']\<rparr>
              sample_world
              [Acquire 0, Acquire 1, Exec 1, Exec 0, Send 1, Release 1, Acquire 2, Exec 2, Send 0,
               Receive, Receive, Send 2, Receive, Release 0, Acquire 3, Exec 3, Send 3, Receive]
            = Some r
        \<and> r = finish sample_env ''out'' s
        \<and> length (got s) = 4
        \<and> mset (got s) =
            {#\<lparr>name = ''t1'', summary = ''ok: b'', err = None\<rparr>,
              \<lparr>name = ''t2'', summary = ''error: '', err = Some ''exit status 1''\<rparr>,
              \<lparr>name = [], summary = ''create error'', err = Some ''permission denied''\<rparr>,
              \<lparr>name = ''t1'', summary = ''ok: b'', err = None\<rparr>#}
        \<and> dom (files (wld s)) = {''out/t1.log'', ''out/t2.log''}
        \<and> card {''out/t1.log'', ''out/t2.log''} < length [''t1'', ''t2'', ''t3'', ''t1''])"
proof -
  let ?cl = "\<lparr>jobs = 2, outdir = ''out'', patterns = [''t*'', ''t1'']\<rparr>"
  let ?sched = "[Acquire 0, Acquire 1, Exec 1, Exec 0, Send 1, Release 1, Acquire 2, Exec 2, Send 0,
               Receive, Receive, Send 2, Receive, Release 0, Acquire 3, Exec 3, Send 3, Receive]"
  have g: "glob_all sample_env (patterns ?cl) [] = Inr [''t1'', ''t2'', ''t3'', ''t1'']"
    by (simp add: sample_env_def)
  obtain r where m: "main sample_env ?cl sample_world ?sched = Some r"
    by (simp add: sample_env_def sample_world_def runTest_def main_def init_def)
  have pre: "outdir ?cl \<noteq> []" "patterns ?cl \<noteq> []" "MkdirAll_err sample_env (outdir ?cl) = None"
    "0 < jobs ?cl" "jobs ?cl \<le> chan_max sample_env"
    by (simp_all add: sample_env_def)
  from run_results[OF pre(1,2) g pre(3,4,5) m]
  obtain s where s: "r = finish sample_env ''out'' s" "length (got s) = 4"
    "mset (got s) =
       mset (map (\<lambda>n. fst (runTest sample_env n ''out'' sample_world)) [''t1'', ''t2'', ''t3'', ''t1''])"
    "dom (files (wld s)) = dom (files sample_world)
       \<union> set (map (\<lambda>n. Join sample_env ''out'' (n @ ''.log''))
              (filter (\<lambda>n. Create_err sample_env (Join sample_env ''out'' (n @ ''.log'')) = None)
                 [''t1'', ''t2'', ''t3'', ''t1'']))"
    by (auto simp: Let_def)
  have res: "mset (got s) =
            {#\<lparr>name = ''t1'', summary = ''ok: b'', err = None\<rparr>,
              \<lparr>name = ''t2'', summary = ''error: '', err = Some ''exit status 1''\<rparr>,
              \<lparr>name = [], summary = ''create error'', err = Some ''permission denied''\<rparr>,
              \<lparr>name = ''t1'', summary = ''ok: b'', err = None\<rparr>#}"
    using s(3)
    by (simp add: sample_env_def runTest_def summary_of_def summary_body_def Split_Cons Split_Nil)
  have logs: "dom (files (wld s)) = {''out/t1.log'', ''out/t2.log''}"
    using s(4) by (simp add: sample_env_def sample_world_def insert_commute)
  show ?thesis
    using m s(1,2) res logs g pre by (simp add: sample_env_def) blast
qed

section \<open>How the process ends\<close>

text \<open>
  C8, as the specification has it, fails: with \<open>--jobs 0\<close> and one test none of the
  listed errors occurs, but no goroutine ever gets a slot, the collection loop waits for
  ever, and the run-time ends the process with status 2; with a negative count, or one
  beyond what the run-time accepts as the size of a channel, making the channel panics.
\<close>

theorem deadlock_exit_counterexample:
  "outdir \<lparr>jobs = 0, outdir = ''out'', patterns = [''t1'']\<rparr> \<noteq> []
   \<and> patterns \<lparr>jobs = 0, outdir = ''out'', patterns = [''t1'']\<rparr> \<noteq> []
   \<and> glob_all sample_env [''t1''] [] = Inr [''t1'']
   \<and> MkdirAll_err sample_env ''out'' = None
   \<and> WriteFile_err sample_env (Join sample_env ''out'' ''summary.txt'') = None
   \<and> main sample_env \<lparr>jobs = 0, outdir = ''out'', patterns = [''t1'']\<rparr> sample_world []
        = Some (Deadlock, sample_world\<lparr>dirs := {''out''}\<rparr>, [])
   \<and> exit_status Deadlock = 2
   \<and> main sample_env \<lparr>jobs = - 1, outdir = ''out'', patterns = [''t1'']\<rparr> sample_world []
        = Some (Panic, sample_world\<lparr>dirs := {''out''}\<rparr>, [])
   \<and> main sample_env \<lparr>jobs = 4611686018427387904, outdir = ''out'', patterns = [''t1'']\<rparr>
        sample_world []
        = Some (Panic, sample_world\<lparr>dirs := {''out''}\<rparr>, [])
   \<and> exit_status Panic = 2"
  by (simp add: sample_env_def sample_world_def main_def init_def stuck_def all_actions_def)

text \<open>
  C8, amended. For a command line that \<open>flag.Parse\<close> accepts, with a \<open>--jobs\<close> that is
  positive and that the run-time accepts as the size of a channel: when the process
  ends, its status is other than 0 exactly when \<open>--outdir\<close> is missing, no pattern is
  given, a pattern cannot be expanded, the output directory cannot be created or the
  summary cannot be written. So the end of a run in which tests have failed has status 0.
\<close>

theorem exit_status_rule:
  assumes "0 < jobs cl" and "jobs cl \<le> chan_max ev"
    and "main ev cl w sched = Some (x, w', t)"
  shows "(exit_status x \<noteq> 0) =
            (outdir cl = [] \<or> patterns cl = []
             \<or> (\<exists>e. glob_all ev (patterns cl) [] = Inl e)
             \<or> MkdirAll_err ev (outdir cl) \<noteq> None
             \<or> WriteFile_err ev (Join ev (outdir cl) ''summary.txt'') \<noteq> None)"
proof (cases "outdir cl = [] \<or> patterns cl = [] \<or> MkdirAll_err ev (outdir cl) \<noteq> None
              \<or> (\<exists>e. glob_all ev (patterns cl) [] = Inl e)")
  case True
  then have "\<exists>e. x = Fatal e"
    using assms(3) by (auto simp: main_def split: sum.splits if_splits option.splits)
  then have "exit_status x = 1" by auto
  then show ?thesis using True by auto
next
  case False
  then obtain es where es: "glob_all ev (patterns cl) [] = Inr es"
    by (cases "glob_all ev (patterns cl) []") auto
  have pre: "outdir cl \<noteq> []" "patterns cl \<noteq> []" "MkdirAll_err ev (outdir cl) = None"
    using False by auto
  obtain s where "(x, w', t) = finish ev (outdir cl) s"
    using main_ends[OF pre(1,2) es pre(3) assms] by blast
  then have "x = fst (finish ev (outdir cl) s)" by (metis fst_conv)
  then show ?thesis using False es by (auto simp: fst_finish split: option.splits)
qed

theorem exit_status_rule_witness:
  "(0::int) < jobs \<lparr>jobs = 1, outdir = ''out'', patterns = [''t*'']\<rparr>
   \<and> jobs \<lparr>jobs = 1, outdir = ''out'', patterns = [''t*'']\<rparr> \<le> chan_max sample_env
   \<and> (\<exists>w'. main sample_env \<lparr>jobs = 1, outdir = ''out'', patterns = [''t*'']\<rparr> sample_world
          [Acquire 2, Exec 2, Send 2, Receive, Release 2, Acquire 0, Exec 0, Send 0, Receive,
           Release 0, Acquire 1, Exec 1, Send 1, Receive]
        = Some (Exit0, w',
                [Progress 1 3 [] ''create error'', Newline, Progress 2 3 ''t1'' ''ok: b'',
                 Progress 3 3 ''t2'' ''error: '', Newline, Newline, Final 2 ''1s'']))
   \<and> exit_status Exit0 = 0
   \<and> outdir \<lparr>jobs = 1, outdir = ''out'', patterns = [''t*'']\<rparr> \<noteq> []
   \<and> patterns \<lparr>jobs = 1, outdir = ''out'', patterns = [''t*'']\<rparr> \<noteq> []
   \<and> glob_all sample_env [''t*''] [] = Inr [''t1'', ''t2'', ''t3'']
   \<and> MkdirAll_err sample_env ''out'' = None
   \<and> WriteFile_err sample_env (Join sample_env ''out'' ''summary.txt'') = None
   \<and> main sample_env \<lparr>jobs = 1, outdir = ''out'', patterns = [''['']\<rparr> sample_world []
        = Some (Fatal ''glob: syntax error in pattern'', sample_world, [])
   \<and> glob_all sample_env [''[''] [] = Inl ''syntax error in pattern''
   \<and> exit_status (Fatal ''glob: syntax error in pattern'') = 1"
proof -
  let ?cl = "\<lparr>jobs = 1, outdir = ''out'', patterns = [''t*'']\<rparr>"
  let ?bad = "\<lparr>jobs = 1, outdir = ''out'', patterns = [''['']\<rparr>"
  let ?sched = "[Acquire 2, Exec 2, Send 2, Receive, Release 2, Acquire 0, Exec 0, Send 0, Receive,
           Release 0, Acquire 1, Exec 1, Send 1, Receive]"
  obtain x w' where m: "main sample_env ?cl sample_world ?sched
        = Some (x, w',
                [Progress 1 3 [] ''create error'', Newline, Progress 2 3 ''t1'' ''ok: b'',
                 Progress 3 3 ''t2'' ''error: '', Newline, Newline, Final 2 ''1s''])"
    by (simp add: sample_env_def sample_world_def runTest_def main_def init_def finish_def
          summary_of_def summary_body_def Split_Cons Split_Nil)
  have j: "0 < jobs ?cl" "jobs ?cl \<le> chan_max sample_env" "0 < jobs ?bad"
    "jobs ?bad \<le> chan_max sample_env"
    by (simp_all add: sample_env_def)
  have b: "main sample_env ?bad sample_world []
        = Some (Fatal ''glob: syntax error in pattern'', sample_world, [])"
    by (simp add: sample_env_def main_def)
  have "exit_status x = 0"
    using exit_status_rule[OF j(1,2) m] by (simp add: sample_env_def)
  then have x: "x = Exit0" by (cases x) simp_all
  have "exit_status (Fatal ''glob: syntax error in pattern'') \<noteq> 0"
    using exit_status_rule[OF j(3,4) b] by (simp add: sample_env_def)
  then show ?thesis using m x b j by (simp add: sample_env_def) 
qed

section \<open>Patterns that match nothing\<close>

text \<open>
  C5, as the specification has it, fails: with a pattern that matches nothing the run is
  not stopped; it writes the summary file with no failures and ends with status 0.
\<close>

theorem empty_match_counterexample:
  "glob_all sample_env [''zz''] [] = Inr []
   \<and> main sample_env \<lparr>jobs = 2, outdir = ''out'', patterns = [''zz'']\<rparr> sample_world []
       = Some (Exit0,
               \<lparr>files = [''out/summary.txt'' \<mapsto>
                           ''# run [rungittest --outdir out]'' @ [LF]
                           @ ''# on 2009-11-10T23:00:00Z, elapsed 1s:'' @ [LF]],
                dirs = {''out''}, spawned = []\<rparr>,
               [Newline, Final 0 ''1s''])"
  by (simp add: sample_env_def sample_world_def main_def init_def finish_def
        summary_text_def show_args_def)

text \<open>
  C5, amended. When the patterns given match nothing, and the output directory can be
  created, the summary can be written and \<open>--jobs\<close> is a size the run-time accepts for a
  channel (not negative, not beyond its limit), the run is not an error: nothing is
  scheduled, no result is produced, the summary file is written with an empty list of
  failures, the totals report 0 failures and the process ends with status 0. What stops
  the run before scheduling is the absence of any pattern.
\<close>

theorem empty_match_run:
  assumes "outdir cl \<noteq> []" and "patterns cl \<noteq> []"
    and "glob_all ev (patterns cl) [] = Inr []"
    and "MkdirAll_err ev (outdir cl) = None"
    and "0 \<le> jobs cl" and "jobs cl \<le> chan_max ev"
    and "WriteFile_err ev (Join ev (outdir cl) ''summary.txt'') = None"
  shows "main ev cl w [] =
           Some (Exit0,
                 w\<lparr>dirs := insert (outdir cl) (dirs w),
                   files := (files w)(Join ev (outdir cl) ''summary.txt'' \<mapsto> summary_text ev [])\<rparr>,
                 [Newline, Final 0 (elapsed_text ev)])
         \<and> (\<forall>a sched. main ev cl w (a # sched) = None)
         \<and> main ev (cl\<lparr>patterns := []\<rparr>) w sched' = Some (Fatal ''usage: provide glob'', w, [])"
proof -
  have none: "step ev J out [] (init [] w1) a = None" for J out w1 a
    by (cases a) (simp_all add: init_def)
  note run = main_run[OF assms(1-6)]
  have "main ev cl w [] =
           Some (Exit0,
                 w\<lparr>dirs := insert (outdir cl) (dirs w),
                   files := (files w)(Join ev (outdir cl) ''summary.txt'' \<mapsto> summary_text ev [])\<rparr>,
                 [Newline, Final 0 (elapsed_text ev)])"
    using assms(7) by (simp add: run init_def finish_def)
  moreover have "main ev cl w (a # sched) = None" for a sched
    by (simp add: run none)
  moreover have "main ev (cl\<lparr>patterns := []\<rparr>) w sched' = Some (Fatal ''usage: provide glob'', w, [])"
    using assms(1) by (simp add: main_def)
  ultimately show ?thesis by blast
qed

theorem empty_match_run_witness:
  "outdir \<lparr>jobs = 2, outdir = ''out'', patterns = [''zz'']\<rparr> \<noteq> []
   \<and> patterns \<lparr>jobs = 2, outdir = ''out'', patterns = [''zz'']\<rparr> \<noteq> []
   \<and> glob_all sample_env (patterns \<lparr>jobs = 2, outdir = ''out'', patterns = [''zz'']\<rparr>) [] = Inr []
   \<and> MkdirAll_err sample_env ''out'' = None
   \<and> (0::int) \<le> jobs \<lparr>jobs = 2, outdir = ''out'', patterns = [''zz'']\<rparr>
   \<and> jobs \<lparr>jobs = 2, outdir = ''out'', patterns = [''zz'']\<rparr> \<le> chan_max sample_env
   \<and> WriteFile_err sample_env (Join sample_env ''out'' ''summary.txt'') = None
   \<and> main sample_env \<lparr>jobs = 2, outdir = ''out'', patterns = [''zz'']\<rparr> sample_world []
       = Some (Exit0,
               \<lparr>files = [''out/summary.txt'' \<mapsto> summary_text sample_env []],
                dirs = {''out''}, spawned = []\<rparr>,
               [Newline, Final 0 ''1s''])
   \<and> main sample_env \<lparr>jobs = 2, outdir = ''out'', patterns = [''zz'']\<rparr> sample_world [Receive]
       = None
   \<and> main sample_env \<lparr>jobs = 2, outdir = ''out'', patterns = []\<rparr> sample_world []
       = Some (Fatal ''usage: provide glob'', sample_world, [])"
  using empty_match_run[of "\<lparr>jobs = 2, outdir = ''out'', patterns = [''zz'']\<rparr>" sample_env
          sample_world "[]"]
  by (simp add: sample_env_def sample_world_def)

section \<open>The summary file\<close>

text \<open>
  When \<open>main\<close> returns normally, all results have been received, and the file
  \<open>summary.txt\<close> in the output directory holds the command line, the time stamp, the
  elapsed time, and then the names that the failed results carry, sorted in the
  lexicographic order of their bytes and separated by line feeds.
\<close>

lemma summary_file_content:
  assumes "main ev cl w sched = Some (Exit0, w', t)"
  shows "\<exists>es s. glob_all ev (patterns cl) [] = Inr es
           \<and> run_sched ev (nat (jobs cl)) (outdir cl) es
                 (init es (w\<lparr>dirs := insert (outdir cl) (dirs w)\<rparr>)) sched = Some s
           \<and> length (got s) = length es
           \<and> files w' (Join ev (outdir cl) ''summary.txt'') =
               Some (''# run '' @ ''['' @ Join_strings (os_Args ev) '' '' @ '']'' @ [LF]
                     @ ''# on '' @ now_text ev @ '', elapsed '' @ elapsed_text ev @ '':'' @ [LF]
                     @ Join_strings (sort (map name (filter (\<lambda>r. err r \<noteq> None) (got s)))) [LF])
           \<and> sorted (sort (map name (filter (\<lambda>r. err r \<noteq> None) (got s))))
           \<and> mset (sort (map name (filter (\<lambda>r. err r \<noteq> None) (got s))))
               = mset (map name (filter (\<lambda>r. err r \<noteq> None) (got s)))"
proof -
  have pre: "outdir cl \<noteq> []" "patterns cl \<noteq> []" "MkdirAll_err ev (outdir cl) = None"
    "0 \<le> jobs cl" "jobs cl \<le> chan_max ev"
    using assms by (auto simp: main_def Let_def split: if_splits sum.splits option.splits)
  obtain es where es: "glob_all ev (patterns cl) [] = Inr es"
    using assms pre by (cases "glob_all ev (patterns cl) []") (auto simp: main_def)
  note run = main_run[OF pre(1,2) es pre(3,4,5)]
  let ?w1 = "w\<lparr>dirs := insert (outdir cl) (dirs w)\<rparr>"
  obtain s where s: "run_sched ev (nat (jobs cl)) (outdir cl) es (init es ?w1) sched = Some s"
    using assms by (auto simp: run split: option.splits)
  have full: "length (got s) = length es" and fin: "finish ev (outdir cl) s = (Exit0, w', t)"
    using assms s by (auto simp: run split: if_splits)
  have failed: "failed s = map name (filter (\<lambda>r. err r \<noteq> None) (got s))"
    using reach_invs[OF s] by (simp add: run_inv_def)
  have "files w' (Join ev (outdir cl) ''summary.txt'') = Some (summary_text ev (sort (failed s)))"
    using fin by (auto simp: finish_def Let_def split: option.splits)
  then show ?thesis using es s full failed
    by (simp add: summary_text_def show_args_def)
qed

text \<open>
  C9 does not hold of the code. The list that is sorted and written holds the names the
  failed results carry, and a result for a log that could not be created carries no name.
  When \<open>t3\<close> is the only test and its log cannot be created, the totals report one failure
  and the summary file lists no identifier; when \<open>t2\<close> fails as well, the file lists an
  empty line and \<open>t2\<close>, and \<open>t3\<close> nowhere.
\<close>

theorem summary_omits_identifier:
  "Create_err sample_env (Join sample_env ''out'' (''t3'' @ ''.log'')) = Some ''permission denied''
   \<and> glob_all sample_env [''t3''] [] = Inr [''t3'']
   \<and> main sample_env \<lparr>jobs = 1, outdir = ''out'', patterns = [''t3'']\<rparr> sample_world
        [Acquire 0, Exec 0, Send 0, Receive]
       = Some (Exit0,
               \<lparr>files = [''out/summary.txt'' \<mapsto>
                           ''# run [rungittest --outdir out]'' @ [LF]
                           @ ''# on 2009-11-10T23:00:00Z, elapsed 1s:'' @ [LF]],
                dirs = {''out''}, spawned = []\<rparr>,
               [Progress 1 1 [] ''create error'', Newline, Newline, Final 1 ''1s''])
   \<and> glob_all sample_env [''t2'', ''t3''] [] = Inr [''t2'', ''t3'']
   \<and> main sample_env \<lparr>jobs = 2, outdir = ''out'', patterns = [''t2'', ''t3'']\<rparr> sample_world
        [Acquire 0, Acquire 1, Exec 0, Exec 1, Send 0, Send 1, Receive, Receive]
       = Some (Exit0,
               \<lparr>files = [''out/t2.log'' \<mapsto> log_text (sh sample_env ''t2''),
                         ''out/summary.txt'' \<mapsto>
                           ''# run [rungittest --outdir out]'' @ [LF]
                           @ ''# on 2009-11-10T23:00:00Z, elapsed 1s:'' @ [LF]
                           @ [LF] @ ''t2''],
                dirs = {''out''}, spawned = [[''/bin/sh'', ''t2'']]\<rparr>,
               [Progress 1 2 ''t2'' ''error: '', Newline,
                Progress 2 2 [] ''create error'', Newline, Newline, Final 2 ''1s''])"
  by (simp add: sample_env_def sample_world_def runTest_def main_def init_def finish_def
        summary_of_def summary_body_def summary_text_def show_args_def Split_Cons Split_Nil)

end
